theory Spec2Isabelle
  imports Complex_Main "HOL-Library.Word"
begin

section \<open>Data model of \<^verbatim>\<open>src/mcts/node.h\<close>\<close>

text \<open>
  The header declares three classes: \<^verbatim>\<open>Edge\<close> (a potential move with its policy prior),
  \<^verbatim>\<open>Node\<close> (a realized edge with visit statistics) and \<^verbatim>\<open>LowNode\<close> (a position with its
  edges and its realized children). Machine integers keep their width: \<^verbatim>\<open>uint8_t\<close>,
  \<^verbatim>\<open>uint16_t\<close> and \<^verbatim>\<open>uint32_t\<close> are 8, 16 and 32 bit words whose arithmetic wraps.
  The statistics \<^verbatim>\<open>wl_\<close> (double), \<^verbatim>\<open>d_\<close> and \<^verbatim>\<open>m_\<close> (float) are idealised as
  real numbers; rounding is outside this development. The fields of \<^verbatim>\<open>Node\<close> carry the
  prefix \<open>node_\<close> and those of \<^verbatim>\<open>LowNode\<close> the prefix \<open>low_\<close>, because both classes
  use the same member names.
\<close>

text \<open>
  Modelled from the spec: \<^verbatim>\<open>Move\<close> (chess/board.h) is not part of this header; a move
  is an opaque code.
\<close>

type_synonym Move = nat

text \<open>
  Modelled from the spec: \<^verbatim>\<open>GameResult\<close> (chess/position.h) is not part of this header;
  the bounds range over black won, draw and white won, in this order.
\<close>

datatype GameResult = BLACK_WON | DRAW | WHITE_WON

datatype Terminal = NonTerminal | EndOfGame | Tablebase

type_synonym Bounds = "GameResult \<times> GameResult"

record Edge =
  edge_move :: Move
  edge_p :: "16 word"

text \<open>A pointer to a \<^verbatim>\<open>LowNode\<close> is an address in the transposition table, or null.\<close>

type_synonym low_node_ptr = "nat option"

record Node =
  node_wl :: real
  node_low_node :: low_node_ptr
  node_d :: real
  node_m :: real
  node_n :: "32 word"
  node_n_in_flight :: "32 word"
  node_edge :: Edge
  node_index :: "16 word"
  node_terminal_type :: Terminal
  node_lower_bound :: GameResult
  node_upper_bound :: GameResult

definition kMagicIndexConstructed :: "16 word" where
  "kMagicIndexConstructed = 65535"

definition kMagicIndexAssigned :: "16 word" where
  "kMagicIndexAssigned = 32767"

text \<open>The default member initialiser of \<^verbatim>\<open>Edge\<close>: \<^verbatim>\<open>p_ = 0\<close>; the default move is code 0.\<close>

definition Edge_default :: Edge where
  "Edge_default = \<lparr>edge_move = 0, edge_p = 0\<rparr>"

text \<open>\<^verbatim>\<open>Node()\<close>: the "constructed" state.\<close>

definition Node_default :: Node where
  "Node_default =
     \<lparr>node_wl = 0, node_low_node = None, node_d = 0, node_m = 0, node_n = 0,
      node_n_in_flight = 0, node_edge = Edge_default, node_index = kMagicIndexConstructed,
      node_terminal_type = NonTerminal, node_lower_bound = BLACK_WON,
      node_upper_bound = WHITE_WON\<rparr>"

text \<open>\<^verbatim>\<open>Node(const Edge& edge, uint16_t index)\<close>.\<close>

definition Node_from_edge :: "Edge \<Rightarrow> 16 word \<Rightarrow> Node" where
  "Node_from_edge e i = Node_default\<lparr>node_edge := e, node_index := i\<rparr>"

definition Node_GetN :: "Node \<Rightarrow> 32 word" where
  "Node_GetN nd = node_n nd"

text \<open>
  Modelled from the spec: \<^verbatim>\<open>Node::GetNInFlight\<close> is only declared in the header (its body
  is in node.cc); it reads \<^verbatim>\<open>n_in_flight_\<close>, the number of started but unfinished visits.
\<close>

definition Node_GetNInFlight :: "Node \<Rightarrow> 32 word" where
  "Node_GetNInFlight nd = node_n_in_flight nd"

text \<open>
  \<^verbatim>\<open>int GetNStarted() const { return n_ + n_in_flight_.load(...); }\<close>: the sum is computed
  in \<^verbatim>\<open>uint32_t\<close> and converted to \<^verbatim>\<open>int\<close>, that is, read as two's complement.
\<close>

definition Node_GetNStarted :: "Node \<Rightarrow> int" where
  "Node_GetNStarted nd = sint (node_n nd + node_n_in_flight nd)"

definition Node_GetQ :: "Node \<Rightarrow> real \<Rightarrow> real" where
  "Node_GetQ nd draw_score = node_wl nd + draw_score * node_d nd"

definition Node_GetWL :: "Node \<Rightarrow> real" where
  "Node_GetWL nd = node_wl nd"

definition Node_GetD :: "Node \<Rightarrow> real" where
  "Node_GetD nd = node_d nd"

definition Node_GetM :: "Node \<Rightarrow> real" where
  "Node_GetM nd = node_m nd"

definition Node_IsTerminal :: "Node \<Rightarrow> bool" where
  "Node_IsTerminal nd = (node_terminal_type nd \<noteq> NonTerminal)"

definition Node_IsTbTerminal :: "Node \<Rightarrow> bool" where
  "Node_IsTbTerminal nd = (node_terminal_type nd = Tablebase)"

definition Node_GetBounds :: "Node \<Rightarrow> Bounds" where
  "Node_GetBounds nd = (node_lower_bound nd, node_upper_bound nd)"

definition Node_Index :: "Node \<Rightarrow> 16 word" where
  "Node_Index nd = node_index nd"

text \<open>\<^verbatim>\<open>Realized()\<close>: the index is below the "being assigned" marker.\<close>

definition Node_Realized :: "Node \<Rightarrow> bool" where
  "Node_Realized nd = (node_index nd < kMagicIndexAssigned)"

subsection \<open>The pair of an edge and its node\<close>

text \<open>
  \<^verbatim>\<open>EdgeAndNode\<close> holds two pointers, each possibly null. The getters only read through
  them, so the pair is modelled by the values pointed to.
\<close>

record EdgeAndNode =
  ean_edge :: "Edge option"
  ean_node :: "Node option"

definition EdgeAndNode_HasNode :: "EdgeAndNode \<Rightarrow> bool" where
  "EdgeAndNode_HasNode en = (ean_node en \<noteq> None)"

definition EdgeAndNode_GetQ :: "EdgeAndNode \<Rightarrow> real \<Rightarrow> real \<Rightarrow> real" where
  "EdgeAndNode_GetQ en default_q draw_score =
     (case ean_node en of
        None \<Rightarrow> default_q
      | Some nd \<Rightarrow> if Node_GetN nd > 0 then Node_GetQ nd draw_score else default_q)"

definition EdgeAndNode_GetWL :: "EdgeAndNode \<Rightarrow> real \<Rightarrow> real" where
  "EdgeAndNode_GetWL en default_wl =
     (case ean_node en of
        None \<Rightarrow> default_wl
      | Some nd \<Rightarrow> if Node_GetN nd > 0 then Node_GetWL nd else default_wl)"

definition EdgeAndNode_GetD :: "EdgeAndNode \<Rightarrow> real \<Rightarrow> real" where
  "EdgeAndNode_GetD en default_d =
     (case ean_node en of
        None \<Rightarrow> default_d
      | Some nd \<Rightarrow> if Node_GetN nd > 0 then Node_GetD nd else default_d)"

definition EdgeAndNode_GetM :: "EdgeAndNode \<Rightarrow> real \<Rightarrow> real" where
  "EdgeAndNode_GetM en default_m =
     (case ean_node en of
        None \<Rightarrow> default_m
      | Some nd \<Rightarrow> if Node_GetN nd > 0 then Node_GetM nd else default_m)"

definition EdgeAndNode_GetN :: "EdgeAndNode \<Rightarrow> 32 word" where
  "EdgeAndNode_GetN en = (case ean_node en of None \<Rightarrow> 0 | Some nd \<Rightarrow> Node_GetN nd)"

definition EdgeAndNode_GetNStarted :: "EdgeAndNode \<Rightarrow> int" where
  "EdgeAndNode_GetNStarted en =
     (case ean_node en of None \<Rightarrow> 0 | Some nd \<Rightarrow> Node_GetNStarted nd)"

definition EdgeAndNode_GetNInFlight :: "EdgeAndNode \<Rightarrow> 32 word" where
  "EdgeAndNode_GetNInFlight en =
     (case ean_node en of None \<Rightarrow> 0 | Some nd \<Rightarrow> Node_GetNInFlight nd)"

definition EdgeAndNode_IsTerminal :: "EdgeAndNode \<Rightarrow> bool" where
  "EdgeAndNode_IsTerminal en =
     (case ean_node en of None \<Rightarrow> False | Some nd \<Rightarrow> Node_IsTerminal nd)"

definition EdgeAndNode_GetBounds :: "EdgeAndNode \<Rightarrow> Bounds" where
  "EdgeAndNode_GetBounds en =
     (case ean_node en of None \<Rightarrow> (BLACK_WON, WHITE_WON) | Some nd \<Rightarrow> Node_GetBounds nd)"

subsection \<open>Positions\<close>

datatype error = AssertionFailed

text \<open>
  A pointer to a child \<^verbatim>\<open>Node\<close> names the place the node is stored at: a slot of the
  inline array \<^verbatim>\<open>static_children_\<close> or a slot of the array behind
  \<^verbatim>\<open>dynamic_children_[0]\<close>. Two pointers are equal when they name the same slot.
\<close>

datatype node_ptr = StaticSlot nat | DynamicSlot nat

text \<open>
  \<^verbatim>\<open>edges_\<close> is a \<^verbatim>\<open>unique_ptr<Edge[]>\<close>: null or an array. The single dynamic array
  (\<^verbatim>\<open>kDynamicChildrenArrayCount = 1\<close>) is null until it is allocated.
\<close>

record LowNode =
  low_static_children :: "Node list"
  low_wl :: real
  low_edges :: "Edge list option"
  low_dynamic_children :: "Node list option"
  low_d :: real
  low_m :: real
  low_n :: "32 word"
  low_allocated_children :: "16 word"
  low_num_parents :: "16 word"
  low_num_edges :: "8 word"
  low_terminal_type :: Terminal
  low_lower_bound :: GameResult
  low_upper_bound :: GameResult
  low_is_transposition :: bool

definition kStaticChildrenArraySize :: nat where
  "kStaticChildrenArraySize = 2"

text \<open>\<^verbatim>\<open>LowNode()\<close>: no edges, two constructed inline children, no parents.\<close>

definition LowNode_default :: LowNode where
  "LowNode_default =
     \<lparr>low_static_children = replicate kStaticChildrenArraySize Node_default,
      low_wl = 0, low_edges = None, low_dynamic_children = None, low_d = 0, low_m = 0,
      low_n = 0, low_allocated_children = of_nat kStaticChildrenArraySize,
      low_num_parents = 0, low_num_edges = 0, low_terminal_type = NonTerminal,
      low_lower_bound = BLACK_WON, low_upper_bound = WHITE_WON,
      low_is_transposition = False\<rparr>"

text \<open>
  Modelled from the spec: \<^verbatim>\<open>Edge::FromMovelist\<close> is only declared in the header (its body
  is in node.cc); from a move list it produces an array of edges with zero priors.
\<close>

definition Edge_FromMovelist :: "Move list \<Rightarrow> Edge list" where
  "Edge_FromMovelist moves = map (\<lambda>mv. \<lparr>edge_move = mv, edge_p = 0\<rparr>) moves"

text \<open>\<^verbatim>\<open>LowNode(const MoveList& moves)\<close>; \<^verbatim>\<open>num_edges_\<close> is the size cut to 8 bits.\<close>

definition LowNode_from_moves :: "Move list \<Rightarrow> LowNode" where
  "LowNode_from_moves moves =
     LowNode_default\<lparr>low_num_edges := of_nat (length moves),
                      low_edges := Some (Edge_FromMovelist moves)\<rparr>"

text \<open>
  \<^verbatim>\<open>LowNode(const MoveList& moves, uint16_t index)\<close>: as above, and the first inline slot
  receives \<^verbatim>\<open>Node(edges_[index], index)\<close>. Reading \<^verbatim>\<open>edges_[index]\<close> beyond the array
  is undefined in C++; the model has no result there.
\<close>

definition LowNode_from_moves_index :: "Move list \<Rightarrow> 16 word \<Rightarrow> LowNode option" where
  "LowNode_from_moves_index moves index =
     (if unat index < length moves
      then Some ((LowNode_from_moves moves)
             \<lparr>low_static_children :=
                (low_static_children (LowNode_from_moves moves))
                  [0 := Node_from_edge (Edge_FromMovelist moves ! unat index) index]\<rparr>)
      else None)"

definition LowNode_GetN :: "LowNode \<Rightarrow> 32 word" where
  "LowNode_GetN p = low_n p"

text \<open>\<^verbatim>\<open>uint32_t GetChildrenVisits() const { return n_ - 1; }\<close>, in 32 bit arithmetic.\<close>

definition LowNode_GetChildrenVisits :: "LowNode \<Rightarrow> 32 word" where
  "LowNode_GetChildrenVisits p = low_n p - 1"


definition LowNode_GetNumParents :: "LowNode \<Rightarrow> 16 word" where
  "LowNode_GetNumParents p = low_num_parents p"

definition LowNode_IsTransposition :: "LowNode \<Rightarrow> bool" where
  "LowNode_IsTransposition p = low_is_transposition p"

text \<open>
  \<^verbatim>\<open>AddParent\<close>: the counter is incremented first (16 bit, wrapping), then
  \<^verbatim>\<open>assert(num_parents_ > 0)\<close> is checked, then the flag is or-ed with
  \<^verbatim>\<open>num_parents_ > 1\<close>. A failing assertion ends the run with \<open>AssertionFailed\<close>.
\<close>

definition LowNode_AddParent :: "LowNode \<Rightarrow> error + LowNode" where
  "LowNode_AddParent p =
     (let np = low_num_parents p + 1 in
      if \<not> np > 0 then Inl AssertionFailed
      else Inr (p\<lparr>low_num_parents := np,
                  low_is_transposition := (low_is_transposition p \<or> np > 1)\<rparr>))"

text \<open>\<^verbatim>\<open>RemoveParent\<close>: \<^verbatim>\<open>assert(num_parents_ > 0)\<close>, then the counter is decremented.\<close>

definition LowNode_RemoveParent :: "LowNode \<Rightarrow> error + LowNode" where
  "LowNode_RemoveParent p =
     (if \<not> low_num_parents p > 0 then Inl AssertionFailed
      else Inr (p\<lparr>low_num_parents := low_num_parents p - 1\<rparr>))"

text \<open>
  The same two operations with assertions compiled out (\<^verbatim>\<open>NDEBUG\<close>): the counter wraps
  silently.
\<close>

definition LowNode_AddParent_release :: "LowNode \<Rightarrow> LowNode" where
  "LowNode_AddParent_release p =
     (let np = low_num_parents p + 1 in
      p\<lparr>low_num_parents := np, low_is_transposition := (low_is_transposition p \<or> np > 1)\<rparr>)"

definition LowNode_RemoveParent_release :: "LowNode \<Rightarrow> LowNode" where
  "LowNode_RemoveParent_release p = p\<lparr>low_num_parents := low_num_parents p - 1\<rparr>"

datatype parent_op = AddParent | RemoveParent

fun apply_parent_op :: "parent_op \<Rightarrow> LowNode \<Rightarrow> error + LowNode" where
  "apply_parent_op AddParent p = LowNode_AddParent p"
| "apply_parent_op RemoveParent p = LowNode_RemoveParent p"

text \<open>A sequence of parent operations; it stops at the first failing assertion.\<close>

fun run_parent_ops :: "parent_op list \<Rightarrow> LowNode \<Rightarrow> error + LowNode" where
  "run_parent_ops [] p = Inr p"
| "run_parent_ops (o1 # os) p =
     (case apply_parent_op o1 p of Inl e \<Rightarrow> Inl e | Inr p' \<Rightarrow> run_parent_ops os p')"

fun apply_parent_op_release :: "parent_op \<Rightarrow> LowNode \<Rightarrow> LowNode" where
  "apply_parent_op_release AddParent p = LowNode_AddParent_release p"
| "apply_parent_op_release RemoveParent p = LowNode_RemoveParent_release p"

fun run_parent_ops_release :: "parent_op list \<Rightarrow> LowNode \<Rightarrow> LowNode" where
  "run_parent_ops_release [] p = p"
| "run_parent_ops_release (o1 # os) p =
     run_parent_ops_release os (apply_parent_op_release o1 p)"

text \<open>
  Modelled from the spec: \<^verbatim>\<open>Edge::SortEdges\<close> is only declared in the header (its body
  is in node.cc); it sorts the edges in place by descending prior.
\<close>

definition Edge_SortEdges :: "Edge list \<Rightarrow> nat \<Rightarrow> Edge list" where
  "Edge_SortEdges es num_edges =
     rev (sort_key (\<lambda>e. unat (edge_p e)) (take num_edges es)) @ drop num_edges es"

text \<open>
  \<^verbatim>\<open>LowNode::SortEdges\<close>: \<^verbatim>\<open>assert(edges_)\<close>, \<^verbatim>\<open>assert(n_ == 0)\<close>, then the edge array
  is sorted.
\<close>

definition LowNode_SortEdges :: "LowNode \<Rightarrow> error + LowNode" where
  "LowNode_SortEdges p =
     (case low_edges p of
        None \<Rightarrow> Inl AssertionFailed
      | Some es \<Rightarrow>
          if low_n p \<noteq> 0 then Inl AssertionFailed
          else Inr (p\<lparr>low_edges := Some (Edge_SortEdges es (unat (low_num_edges p)))\<rparr>))"

subsection \<open>Score updates\<close>

text \<open>
  Modelled from the spec: \<^verbatim>\<open>Node::TryStartScoreUpdate\<close> is only declared in the header
  (its body is in node.cc). It succeeds and increments \<^verbatim>\<open>n_in_flight_\<close> by one unless
  the node was never visited and another thread is expanding it
  (\<^verbatim>\<open>n == 0\<close> and \<^verbatim>\<open>n_in_flight == 1\<close>); then it returns false and changes nothing.
  The result is the returned flag and the node afterwards.
\<close>

definition Node_TryStartScoreUpdate :: "Node \<Rightarrow> bool \<times> Node" where
  "Node_TryStartScoreUpdate nd =
     (if node_n nd = 0 \<and> node_n_in_flight nd = 1 then (False, nd)
      else (True, nd\<lparr>node_n_in_flight := node_n_in_flight nd + 1\<rparr>))"

text \<open>
  Modelled from the spec: \<^verbatim>\<open>Node::CancelScoreUpdate\<close> (body in node.cc) decrements
  \<^verbatim>\<open>n_in_flight_\<close> by the multivisit.
\<close>

definition Node_CancelScoreUpdate :: "Node \<Rightarrow> int \<Rightarrow> Node" where
  "Node_CancelScoreUpdate nd multivisit =
     nd\<lparr>node_n_in_flight := node_n_in_flight nd - word_of_int multivisit\<rparr>"

text \<open>
  Modelled from the spec: \<^verbatim>\<open>Node::IncrementNInFlight\<close> (body in node.cc) adds the
  multivisit to \<^verbatim>\<open>n_in_flight_\<close>, when one visit is treated as several.
\<close>

definition Node_IncrementNInFlight :: "Node \<Rightarrow> int \<Rightarrow> Node" where
  "Node_IncrementNInFlight nd multivisit =
     nd\<lparr>node_n_in_flight := node_n_in_flight nd + word_of_int multivisit\<rparr>"

text \<open>
  Modelled from the spec: \<^verbatim>\<open>Node::FinalizeScoreUpdate\<close> is only declared in the header
  (its body is in node.cc). It merges the new value into the running means,
  \<^verbatim>\<open>wl <- wl + k (v - wl) / (n + k)\<close> and the same for \<^verbatim>\<open>d\<close> and \<^verbatim>\<open>m\<close>, then adds
  the multivisit \<^verbatim>\<open>k\<close> to \<^verbatim>\<open>n_\<close> and subtracts it from \<^verbatim>\<open>n_in_flight_\<close>. The two
  counters are 32 bit and wrap.
\<close>

definition running_mean :: "real \<Rightarrow> 32 word \<Rightarrow> real \<Rightarrow> int \<Rightarrow> real" where
  "running_mean old n v multivisit =
     old + real_of_int multivisit * (v - old) / (real (unat n) + real_of_int multivisit)"

definition Node_FinalizeScoreUpdate :: "Node \<Rightarrow> real \<Rightarrow> real \<Rightarrow> real \<Rightarrow> int \<Rightarrow> Node" where
  "Node_FinalizeScoreUpdate nd v d m multivisit =
     nd\<lparr>node_wl := running_mean (node_wl nd) (node_n nd) v multivisit,
        node_d := running_mean (node_d nd) (node_n nd) d multivisit,
        node_m := running_mean (node_m nd) (node_n nd) m multivisit,
        node_n := node_n nd + word_of_int multivisit,
        node_n_in_flight := node_n_in_flight nd - word_of_int multivisit\<rparr>"

text \<open>
  Modelled from the spec: \<^verbatim>\<open>LowNode::FinalizeScoreUpdate\<close> (body in node.cc) updates the
  position's own statistics in the same way. The class \<^verbatim>\<open>LowNode\<close> declares no
  \<^verbatim>\<open>n_in_flight_\<close> member, so there is no such counter to decrement.
\<close>

definition LowNode_FinalizeScoreUpdate ::
    "LowNode \<Rightarrow> real \<Rightarrow> real \<Rightarrow> real \<Rightarrow> int \<Rightarrow> LowNode" where
  "LowNode_FinalizeScoreUpdate p v d m multivisit =
     p\<lparr>low_wl := running_mean (low_wl p) (low_n p) v multivisit,
       low_d := running_mean (low_d p) (low_n p) d multivisit,
       low_m := running_mean (low_m p) (low_n p) m multivisit,
       low_n := low_n p + word_of_int multivisit\<rparr>"

subsection \<open>Child storage\<close>

text \<open>Reading and writing a child through a pointer; a dangling pointer reads as \<open>None\<close>.\<close>

fun LowNode_node_at :: "LowNode \<Rightarrow> node_ptr \<Rightarrow> Node option" where
  "LowNode_node_at p (StaticSlot j) =
     (if j < length (low_static_children p) then Some (low_static_children p ! j) else None)"
| "LowNode_node_at p (DynamicSlot j) =
     (case low_dynamic_children p of
        None \<Rightarrow> None
      | Some arr \<Rightarrow> if j < length arr then Some (arr ! j) else None)"

fun LowNode_store_at :: "LowNode \<Rightarrow> node_ptr \<Rightarrow> Node \<Rightarrow> LowNode" where
  "LowNode_store_at p (StaticSlot j) nd =
     p\<lparr>low_static_children := (low_static_children p)[j := nd]\<rparr>"
| "LowNode_store_at p (DynamicSlot j) nd =
     p\<lparr>low_dynamic_children := map_option (\<lambda>arr. arr[j := nd]) (low_dynamic_children p)\<rparr>"

text \<open>
  Modelled from the spec: \<^verbatim>\<open>LowNode::FindPlaceOf\<close>, \<^verbatim>\<open>Allocate\<close>, \<^verbatim>\<open>GetChildAt\<close> and
  \<^verbatim>\<open>InsertChildAt\<close> are only declared in the header (their bodies are in node.cc).
  The storage slot of edge index \<open>i\<close> is inline if \<open>i < 2\<close>, else in the dynamic
  spill, which holds the remaining \<^verbatim>\<open>num_edges_ - 2\<close> children once it is allocated;
  \<^verbatim>\<open>allocated_children_\<close> records how many slots are backed by memory.
\<close>

definition slot_of_index :: "16 word \<Rightarrow> node_ptr" where
  "slot_of_index index =
     (if unat index < kStaticChildrenArraySize then StaticSlot (unat index)
      else DynamicSlot (unat index - kStaticChildrenArraySize))"

definition LowNode_FindPlaceOf :: "LowNode \<Rightarrow> 16 word \<Rightarrow> node_ptr option" where
  "LowNode_FindPlaceOf p index =
     (case LowNode_node_at p (slot_of_index index) of
        None \<Rightarrow> None
      | Some nd \<Rightarrow> Some (slot_of_index index))"

definition LowNode_Allocate :: "LowNode \<Rightarrow> LowNode" where
  "LowNode_Allocate p =
     (case low_dynamic_children p of
        Some arr \<Rightarrow> p
      | None \<Rightarrow>
          p\<lparr>low_dynamic_children :=
               Some (replicate (unat (low_num_edges p) - kStaticChildrenArraySize) Node_default),
            low_allocated_children := ucast (low_num_edges p)\<rparr>)"

text \<open>
  Modelled from the spec: \<^verbatim>\<open>GetChildAt\<close> returns the child at edge index \<open>i\<close> if it is
  realized, else null; an index that is not an edge index of the position has no child.
\<close>

definition LowNode_GetChildAt :: "LowNode \<Rightarrow> 16 word \<Rightarrow> node_ptr option" where
  "LowNode_GetChildAt p index =
     (if \<not> unat index < unat (low_num_edges p) then None
      else
        (case LowNode_FindPlaceOf p index of
           None \<Rightarrow> None
         | Some q \<Rightarrow>
             (case LowNode_node_at p q of
                None \<Rightarrow> None
              | Some nd \<Rightarrow> if Node_Realized nd then Some q else None)))"

text \<open>
  Modelled from the spec: \<^verbatim>\<open>InsertChildAt\<close> (with the default \<^verbatim>\<open>init = true\<close>) locates
  the slot, claims it when its index is still the "constructed" marker, writes the copy of
  the edge and publishes the final index; a slot that is already realized is returned as
  it is. A caller that finds the slot "being assigned" waits for the thread that claimed
  it; in this sequential model no such thread exists and the call has no result, as for
  an index that is not an edge index of the position.
\<close>

definition LowNode_InsertChildAt :: "LowNode \<Rightarrow> 16 word \<Rightarrow> (node_ptr \<times> LowNode) option" where
  "LowNode_InsertChildAt p index =
     (case low_edges p of
        None \<Rightarrow> None
      | Some es \<Rightarrow>
          if \<not> (unat index < unat (low_num_edges p) \<and> unat index < length es) then None
          else
            let p1 = (if unat index < kStaticChildrenArraySize then p else LowNode_Allocate p)
            in (case LowNode_FindPlaceOf p1 index of
                  None \<Rightarrow> None
                | Some q \<Rightarrow>
                    (case LowNode_node_at p1 q of
                       None \<Rightarrow> None
                     | Some nd \<Rightarrow>
                         if node_index nd = kMagicIndexConstructed
                         then Some (q, LowNode_store_at p1 q
                                (nd\<lparr>node_edge := es ! unat index, node_index := index\<rparr>))
                         else if Node_Realized nd then Some (q, p1)
                         else None)))"

text \<open>All child slots in index order, and the visits of the realized ones.\<close>

definition all_children :: "LowNode \<Rightarrow> Node list" where
  "all_children p =
     low_static_children p @ (case low_dynamic_children p of None \<Rightarrow> [] | Some arr \<Rightarrow> arr)"

definition realized_visits :: "Node \<Rightarrow> 32 word" where
  "realized_visits nd = (if Node_Realized nd then node_n nd else 0)"

definition children_visits :: "LowNode \<Rightarrow> 32 word" where
  "children_visits p = sum_list (map realized_visits (all_children p))"

subsection \<open>Well-formed child storage\<close>

text \<open>
  The representation invariant of a position at rest: the edge array has \<^verbatim>\<open>num_edges_\<close>
  entries, there are two inline slots, the spill (once allocated) has the remaining
  \<^verbatim>\<open>num_edges_ - 2\<close> slots, and every slot is either still "constructed" (and then
  without visits) or holds the child of its own index with a copy of the edge at that
  index. No slot is left in the "being assigned" state, which only exists while another
  thread realizes the child.
\<close>

definition slot_ok :: "Edge list \<Rightarrow> nat \<Rightarrow> Node \<Rightarrow> bool" where
  "slot_ok es j nd =
     ((node_index nd = kMagicIndexConstructed \<and> node_n nd = 0) \<or>
      (j < length es \<and> node_index nd = of_nat j \<and> node_edge nd = es ! j))"

definition edges_of :: "LowNode \<Rightarrow> Edge list" where
  "edges_of p = (case low_edges p of None \<Rightarrow> [] | Some es \<Rightarrow> es)"

definition spill_of :: "LowNode \<Rightarrow> Node list" where
  "spill_of p = (case low_dynamic_children p of None \<Rightarrow> [] | Some arr \<Rightarrow> arr)"

definition LowNode_wf :: "LowNode \<Rightarrow> bool" where
  "LowNode_wf p =
     (length (edges_of p) = unat (low_num_edges p) \<and>
      length (low_static_children p) = kStaticChildrenArraySize \<and>
      (low_dynamic_children p = None \<or>
       length (spill_of p) = unat (low_num_edges p) - kStaticChildrenArraySize) \<and>
      list_all (\<lambda>j. slot_ok (edges_of p) j (low_static_children p ! j))
        [0..<length (low_static_children p)] \<and>
      list_all (\<lambda>j. slot_ok (edges_of p) (kStaticChildrenArraySize + j) (spill_of p ! j))
        [0..<length (spill_of p)])"

text \<open>Whether the child at an edge index is realized.\<close>

definition LowNode_child_realized :: "LowNode \<Rightarrow> 16 word \<Rightarrow> bool" where
  "LowNode_child_realized p index =
     (case LowNode_node_at p (slot_of_index index) of
        None \<Rightarrow> False
      | Some nd \<Rightarrow> Node_Realized nd)"

subsection \<open>Descents through a position\<close>

text \<open>
  Modelled from the spec: the search loop that descends through the graph and backs the
  values up is not part of this header; the spec describes its calls on the tree.
  The first visit of a position finalizes its own evaluation. A later descent through
  the edge at \<open>index\<close> realizes the child if needed and starts a score update on it
  (one visit in flight, amplified to the multivisit); on the way back it finalizes the
  multivisit on the child and on the position. A descent that cannot start the score
  update, because another thread is expanding the child, is not made. (The values handed
  to the two updates do not matter for the visit counters; the same ones are used for
  both.)
\<close>

definition Node_visit :: "Node \<Rightarrow> real \<Rightarrow> real \<Rightarrow> real \<Rightarrow> int \<Rightarrow> Node option" where
  "Node_visit nd v d m multivisit =
     (case Node_TryStartScoreUpdate nd of
        (False, nd1) \<Rightarrow> None
      | (True, nd1) \<Rightarrow>
          Some (Node_FinalizeScoreUpdate (Node_IncrementNInFlight nd1 (multivisit - 1))
                  v d m multivisit))"

definition LowNode_first_visit :: "LowNode \<Rightarrow> real \<Rightarrow> real \<Rightarrow> real \<Rightarrow> LowNode" where
  "LowNode_first_visit p v d m = LowNode_FinalizeScoreUpdate p v d m 1"

definition LowNode_descend ::
    "LowNode \<Rightarrow> 16 word \<Rightarrow> real \<Rightarrow> real \<Rightarrow> real \<Rightarrow> int \<Rightarrow> LowNode option" where
  "LowNode_descend p index v d m multivisit =
     (case LowNode_InsertChildAt p index of
        None \<Rightarrow> None
      | Some (q, p1) \<Rightarrow>
          (case LowNode_node_at p1 q of
             None \<Rightarrow> None
           | Some nd \<Rightarrow>
               (case Node_visit nd v d m multivisit of
                  None \<Rightarrow> None
                | Some nd' \<Rightarrow>
                    Some (LowNode_FinalizeScoreUpdate (LowNode_store_at p1 q nd')
                            v d m multivisit))))"

record descent =
  descent_index :: "16 word"
  descent_v :: real
  descent_d :: real
  descent_m :: real
  descent_multivisit :: int

fun run_descents :: "descent list \<Rightarrow> LowNode \<Rightarrow> LowNode option" where
  "run_descents [] p = Some p"
| "run_descents (x # xs) p =
     (case LowNode_descend p (descent_index x) (descent_v x) (descent_d x) (descent_m x)
             (descent_multivisit x) of
        None \<Rightarrow> None
      | Some p' \<Rightarrow> run_descents xs p')"

text \<open>The aggregate: the visits of a position are one more than those of its children.\<close>

definition aggregate_ok :: "LowNode \<Rightarrow> bool" where
  "aggregate_ok p = (low_n p = 1 + children_visits p)"

text \<open>No visit is in flight on any child: the state between two descents.\<close>

definition children_quiescent :: "LowNode \<Rightarrow> bool" where
  "children_quiescent p = list_all (\<lambda>nd. node_n_in_flight nd = 0) (all_children p)"

subsection \<open>Scenario S1\<close>

text \<open>
  A position with three edges is built, the child at index 1 is realized, and one visit
  with \<open>v = 0.2\<close>, \<open>d = 0\<close>, \<open>m = 10\<close>, \<open>k = 1\<close> is finalized on that child and on the
  position. (The priors play no part in the counters and are left at zero.)
\<close>

definition scenario_S1 :: "LowNode option" where
  "scenario_S1 = LowNode_descend (LowNode_from_moves [0, 1, 2]) 1 (2 / 10) 0 10 1"

text \<open>
  The same scenario on a position that has already received the first visit of its own
  evaluation, with the same value.
\<close>

definition scenario_S1_visited :: "LowNode option" where
  "scenario_S1_visited =
     LowNode_descend (LowNode_first_visit (LowNode_from_moves [0, 1, 2]) (2 / 10) 0 10)
       1 (2 / 10) 0 10 1"

subsection \<open>The iterator over visited children\<close>
























section \<open>Verified properties\<close>

lemma replicate_static: "replicate 2 x = [x, x]"
  by (simp add: numeral_2_eq_2)

lemmas model_defs =
  replicate_static LowNode_from_moves_def LowNode_default_def LowNode_GetChildAt_def LowNode_FindPlaceOf_def
  slot_of_index_def kStaticChildrenArraySize_def Node_Realized_def Node_from_edge_def
  Node_default_def kMagicIndexAssigned_def kMagicIndexConstructed_def Edge_FromMovelist_def
  LowNode_InsertChildAt_def LowNode_Allocate_def Edge_default_def LowNode_descend_def
  Node_visit_def Node_TryStartScoreUpdate_def Node_IncrementNInFlight_def
  Node_FinalizeScoreUpdate_def LowNode_FinalizeScoreUpdate_def LowNode_first_visit_def

subsection \<open>Children visits of a position without a finalized visit\<close>

text \<open>
  Claim C10: for a position with \<open>n = 0\<close>, \<^verbatim>\<open>GetChildrenVisits()\<close> computes \<open>n - 1\<close> in
  unsigned 32 bit arithmetic and returns \<open>2^32 - 1\<close>, not 0.
\<close>

theorem GetChildrenVisits_wraps:
  assumes "low_n p = 0"
  shows "LowNode_GetChildrenVisits p = 4294967295 \<and>
         unat (LowNode_GetChildrenVisits p) = 2 ^ 32 - 1"
proof -
  have w: "LowNode_GetChildrenVisits p = 0 - 1"
    using assms by (simp add: LowNode_GetChildrenVisits_def)
  have v: "(0 :: 32 word) - 1 = 4294967295" by simp
  have "unat (4294967295 :: 32 word) = 2 ^ 32 - 1" by simp
  with w v show ?thesis by metis
qed

theorem GetChildrenVisits_wraps_witness:
  "low_n (LowNode_from_moves [10, 20, 30]) = 0 \<and>
   LowNode_GetChildrenVisits (LowNode_from_moves [10, 20, 30]) = 4294967295 \<and>
   unat (LowNode_GetChildrenVisits (LowNode_from_moves [10, 20, 30])) = 2 ^ 32 - 1"
proof -
  have h: "low_n (LowNode_from_moves [10, 20, 30]) = 0"
    by (simp add: LowNode_from_moves_def LowNode_default_def)
  from GetChildrenVisits_wraps [OF h] h show ?thesis by blast
qed

subsection \<open>Proxies of an edge and node pair\<close>

text \<open>
  Claim C9: \<^verbatim>\<open>GetQ\<close>, \<^verbatim>\<open>GetWL\<close>, \<^verbatim>\<open>GetD\<close> and \<^verbatim>\<open>GetM\<close> return the caller's default
  when the pair has no node and also when its node has \<open>n = 0\<close>; with no node,
  \<^verbatim>\<open>GetN\<close>, \<^verbatim>\<open>GetNStarted\<close> and \<^verbatim>\<open>GetNInFlight\<close> return 0 and \<^verbatim>\<open>GetBounds\<close> returns
  the widest interval from black won to white won.
\<close>

theorem EdgeAndNode_defaults:
  "(ean_node en = None \<longrightarrow>
      EdgeAndNode_GetQ en default_q draw_score = default_q \<and>
      EdgeAndNode_GetWL en default_wl = default_wl \<and>
      EdgeAndNode_GetD en default_d = default_d \<and>
      EdgeAndNode_GetM en default_m = default_m \<and>
      EdgeAndNode_GetN en = 0 \<and>
      EdgeAndNode_GetNStarted en = 0 \<and>
      EdgeAndNode_GetNInFlight en = 0 \<and>
      EdgeAndNode_GetBounds en = (BLACK_WON, WHITE_WON)) \<and>
   (\<forall>nd. ean_node en = Some nd \<and> node_n nd = 0 \<longrightarrow>
      EdgeAndNode_GetQ en default_q draw_score = default_q \<and>
      EdgeAndNode_GetWL en default_wl = default_wl \<and>
      EdgeAndNode_GetD en default_d = default_d \<and>
      EdgeAndNode_GetM en default_m = default_m)"
  by (simp add: EdgeAndNode_GetQ_def EdgeAndNode_GetWL_def EdgeAndNode_GetD_def
      EdgeAndNode_GetM_def EdgeAndNode_GetN_def EdgeAndNode_GetNStarted_def
      EdgeAndNode_GetNInFlight_def EdgeAndNode_GetBounds_def Node_GetN_def)

text \<open>
  The witness reads a pair without a node, and a pair whose node has no finished visit
  but stored values that differ from the defaults.
\<close>

theorem EdgeAndNode_defaults_witness:
  "EdgeAndNode_GetQ \<lparr>ean_edge = Some Edge_default, ean_node = None\<rparr> (3 / 10) (1 / 2) = 3 / 10 \<and>
   EdgeAndNode_GetN \<lparr>ean_edge = Some Edge_default, ean_node = None\<rparr> = 0 \<and>
   EdgeAndNode_GetBounds \<lparr>ean_edge = Some Edge_default, ean_node = None\<rparr>
     = (BLACK_WON, WHITE_WON) \<and>
   node_n (Node_default\<lparr>node_wl := 7 / 10, node_d := 1 / 10\<rparr>) = 0 \<and>
   EdgeAndNode_GetQ
     \<lparr>ean_edge = Some Edge_default,
      ean_node = Some (Node_default\<lparr>node_wl := 7 / 10, node_d := 1 / 10\<rparr>)\<rparr>
     (3 / 10) (1 / 2) = 3 / 10 \<and>
   EdgeAndNode_GetWL
     \<lparr>ean_edge = Some Edge_default,
      ean_node = Some (Node_default\<lparr>node_wl := 7 / 10, node_d := 1 / 10\<rparr>)\<rparr>
     (3 / 10) = 3 / 10"
proof -
  let ?e0 = "\<lparr>ean_edge = Some Edge_default, ean_node = None\<rparr>"
  let ?nd = "Node_default\<lparr>node_wl := 7 / 10, node_d := 1 / 10\<rparr>"
  let ?e1 = "\<lparr>ean_edge = Some Edge_default, ean_node = Some ?nd\<rparr>"
  have n0: "node_n ?nd = 0" by (simp add: Node_default_def)
  have a: "ean_node ?e0 = None" by simp
  have b: "ean_node ?e1 = Some ?nd \<and> node_n ?nd = 0" using n0 by simp
  from EdgeAndNode_defaults [of ?e0 "3 / 10" "1 / 2" "3 / 10" 0 0] a
  have c: "EdgeAndNode_GetQ ?e0 (3 / 10) (1 / 2) = 3 / 10 \<and> EdgeAndNode_GetN ?e0 = 0 \<and>
           EdgeAndNode_GetBounds ?e0 = (BLACK_WON, WHITE_WON)"
    by blast
  from EdgeAndNode_defaults [of ?e1 "3 / 10" "1 / 2" "3 / 10" 0 0] b
  have d: "EdgeAndNode_GetQ ?e1 (3 / 10) (1 / 2) = 3 / 10 \<and>
           EdgeAndNode_GetWL ?e1 (3 / 10) = 3 / 10"
    by blast
  from c d n0 show ?thesis by blast
qed

subsection \<open>The transposition flag\<close>

lemma latch_step:
  "low_is_transposition p \<Longrightarrow> apply_parent_op x p = Inr p' \<Longrightarrow> low_is_transposition p'"
  by (cases x) (auto simp: LowNode_AddParent_def LowNode_RemoveParent_def Let_def split: if_splits)

lemma latch_run:
  "low_is_transposition p \<Longrightarrow> run_parent_ops xs p = Inr p' \<Longrightarrow> low_is_transposition p'"
proof (induction xs arbitrary: p)
  case Nil
  then show ?case by simp
next
  case (Cons x xs)
  then show ?case by (auto split: sum.splits dest: latch_step)
qed

lemma latch_run_release:
  "low_is_transposition p \<Longrightarrow> low_is_transposition (run_parent_ops_release xs p)"
proof (induction xs arbitrary: p)
  case Nil
  then show ?case by simp
next
  case (Cons x xs)
  have "low_is_transposition (apply_parent_op_release x p)"
    using Cons.prems
    by (cases x) (simp_all add: LowNode_AddParent_release_def LowNode_RemoveParent_release_def Let_def)
  then show ?case using Cons.IH by simp
qed

lemma AddParent_sets:
  assumes "1 \<le> low_num_parents p" "LowNode_AddParent p = Inr p1"
  shows "low_is_transposition p1 \<and> 2 \<le> low_num_parents p1"
proof -
  let ?np = "low_num_parents p + 1"
  from assms(2) have nz: "?np \<noteq> 0"
    and p1: "p1 = p\<lparr>low_num_parents := ?np,
                    low_is_transposition := (low_is_transposition p \<or> ?np > 1)\<rparr>"
    by (auto simp: LowNode_AddParent_def Let_def word_greater_zero_iff split: if_splits)
  have "1 < ?np" "2 \<le> ?np" using assms(1) nz by unat_arith+
  then show ?thesis using p1 by simp
qed

text \<open>
  While no assertion fails, a parent count of two or more always comes with the flag:
  the count cannot wrap below zero, so it only gets there through \<^verbatim>\<open>AddParent\<close>.
\<close>

lemma parents_invariant_step:
  assumes "2 \<le> low_num_parents p \<longrightarrow> low_is_transposition p"
    and "apply_parent_op x p = Inr p'"
  shows "2 \<le> low_num_parents p' \<longrightarrow> low_is_transposition p'"
proof (cases x)
  case AddParent
  let ?np = "low_num_parents p + 1"
  from assms(2) AddParent
  have p': "p' = p\<lparr>low_num_parents := ?np,
                    low_is_transposition := (low_is_transposition p \<or> ?np > 1)\<rparr>"
    by (auto simp: LowNode_AddParent_def Let_def split: if_splits)
  have "2 \<le> ?np \<Longrightarrow> 1 < ?np" by unat_arith
  then show ?thesis using p' by auto
next
  case RemoveParent
  from assms(2) RemoveParent have pos: "0 < low_num_parents p"
    and p': "p' = p\<lparr>low_num_parents := low_num_parents p - 1\<rparr>"
    by (auto simp: LowNode_RemoveParent_def split: if_splits)
  have "2 \<le> low_num_parents p - 1 \<Longrightarrow> 2 \<le> low_num_parents p" using pos by unat_arith
  then show ?thesis using p' assms(1) by auto
qed

lemma parents_invariant_run:
  "2 \<le> low_num_parents p \<longrightarrow> low_is_transposition p \<Longrightarrow> run_parent_ops xs p = Inr p' \<Longrightarrow>
   2 \<le> low_num_parents p' \<longrightarrow> low_is_transposition p'"
proof (induction xs arbitrary: p)
  case Nil
  then show ?case by simp
next
  case (Cons x xs)
  from Cons.prems(2) obtain p1
    where s: "apply_parent_op x p = Inr p1" and r: "run_parent_ops xs p1 = Inr p'"
    by (auto split: sum.splits)
  from parents_invariant_step [OF Cons.prems(1) s]
  have "2 \<le> low_num_parents p1 \<longrightarrow> low_is_transposition p1" .
  from Cons.IH [OF this r] show ?case .
qed

lemma parents_invariant_from_construction:
  "run_parent_ops xs LowNode_default = Inr p \<Longrightarrow> 2 \<le> low_num_parents p \<Longrightarrow>
   low_is_transposition p"
  using parents_invariant_run [of LowNode_default xs p] by (simp add: LowNode_default_def)

text \<open>
  Claim C5: once \<^verbatim>\<open>AddParent\<close> was called on a position whose parent count was at least
  1 (so that the count reached 2), \<^verbatim>\<open>is_transposition\<close> is true and stays true under
  every later sequence of \<^verbatim>\<open>AddParent\<close> and \<^verbatim>\<open>RemoveParent\<close> calls, whatever the count
  becomes. This holds with the assertions checked and with the assertions compiled out.
\<close>

theorem transposition_latch:
  assumes "1 \<le> low_num_parents p"
    and "LowNode_AddParent p = Inr p1"
    and "run_parent_ops ops p1 = Inr p2"
  shows "2 \<le> LowNode_GetNumParents p1 \<and> LowNode_IsTransposition p1 \<and>
         LowNode_IsTransposition p2 \<and>
         LowNode_IsTransposition (run_parent_ops_release ops p1)"
proof -
  from AddParent_sets [OF assms(1,2)]
  have f: "low_is_transposition p1" and n: "2 \<le> low_num_parents p1" by simp_all
  from latch_run [OF f assms(3)] have "low_is_transposition p2" .
  moreover from latch_run_release [OF f]
  have "low_is_transposition (run_parent_ops_release ops p1)" .
  ultimately show ?thesis
    using f n by (simp add: LowNode_GetNumParents_def LowNode_IsTransposition_def)
qed

text \<open>
  The witness adds two parents to a new position and removes both again: the count is
  back at 0 and the flag is still set.
\<close>

theorem transposition_latch_witness:
  "(1 :: 16 word) \<le> low_num_parents (LowNode_default\<lparr>low_num_parents := 1\<rparr>) \<and>
   LowNode_AddParent LowNode_default = Inr (LowNode_default\<lparr>low_num_parents := 1\<rparr>) \<and>
   LowNode_AddParent (LowNode_default\<lparr>low_num_parents := 1\<rparr>) =
     Inr (LowNode_default\<lparr>low_num_parents := 2, low_is_transposition := True\<rparr>) \<and>
   run_parent_ops [RemoveParent, RemoveParent]
       (LowNode_default\<lparr>low_num_parents := 2, low_is_transposition := True\<rparr>) =
     Inr (LowNode_default\<lparr>low_num_parents := 0, low_is_transposition := True\<rparr>) \<and>
   LowNode_IsTransposition
     (LowNode_default\<lparr>low_num_parents := 0, low_is_transposition := True\<rparr>)"
proof -
  let ?p = "LowNode_default\<lparr>low_num_parents := 1\<rparr>"
  let ?p1 = "LowNode_default\<lparr>low_num_parents := 2, low_is_transposition := True\<rparr>"
  let ?p2 = "LowNode_default\<lparr>low_num_parents := 0, low_is_transposition := True\<rparr>"
  have h0: "LowNode_AddParent LowNode_default = Inr ?p"
    by (simp add: LowNode_AddParent_def LowNode_default_def)
  have h1: "(1 :: 16 word) \<le> low_num_parents ?p" by simp
  have h2: "LowNode_AddParent ?p = Inr ?p1"
    by (simp add: LowNode_AddParent_def LowNode_default_def)
  have h3: "run_parent_ops [RemoveParent, RemoveParent] ?p1 = Inr ?p2"
    by (simp add: LowNode_RemoveParent_def LowNode_default_def)
  from transposition_latch [OF h1 h2 h3] have "LowNode_IsTransposition ?p2" by simp
  with h0 h1 h2 h3 show ?thesis by simp
qed

subsection \<open>The assertions of SortEdges\<close>

text \<open>
  Claim C7 (as stated): the debug assertion of \<^verbatim>\<open>SortEdges\<close> fails in every state in
  which a child is realized and in no other state. The code asserts something else: a
  position built with its first child realized passes both assertions, and a position
  without any realized child but with one finished visit fails the second.
\<close>

theorem SortEdges_assertion_counterexample:
  "(case LowNode_from_moves_index [10, 20, 30] 0 of
      None \<Rightarrow> False
    | Some p \<Rightarrow>
        Node_Realized (low_static_children p ! 0) \<and>
        LowNode_SortEdges p \<noteq> Inl AssertionFailed) \<and>
   list_all (\<lambda>nd. \<not> Node_Realized nd)
     (all_children ((LowNode_from_moves [10, 20, 30])\<lparr>low_n := 1\<rparr>)) \<and>
   LowNode_SortEdges ((LowNode_from_moves [10, 20, 30])\<lparr>low_n := 1\<rparr>) = Inl AssertionFailed"
  by (simp add: LowNode_from_moves_index_def LowNode_SortEdges_def all_children_def model_defs)

text \<open>
  Claim C7 (amended): the assertions of \<^verbatim>\<open>SortEdges\<close> fail exactly when the position
  has no edge array or already has a finished visit (\<open>n \<noteq> 0\<close>); the state of the
  children is not looked at.
\<close>

theorem SortEdges_assertion:
  "(LowNode_SortEdges p = Inl AssertionFailed) = (low_edges p = None \<or> low_n p \<noteq> 0) \<and>
   (LowNode_SortEdges (p\<lparr>low_static_children := cs, low_dynamic_children := ds\<rparr>)
      = Inl AssertionFailed) = (LowNode_SortEdges p = Inl AssertionFailed)"
  by (simp add: LowNode_SortEdges_def split: option.splits)

theorem SortEdges_assertion_witness:
  "LowNode_SortEdges (LowNode_from_moves [10, 20, 30]) \<noteq> Inl AssertionFailed \<and>
   LowNode_SortEdges ((LowNode_from_moves [10, 20, 30])
      \<lparr>low_static_children := [Node_from_edge Edge_default 0, Node_default],
       low_dynamic_children := None\<rparr>) \<noteq> Inl AssertionFailed"
proof -
  let ?p = "LowNode_from_moves [10, 20, 30]"
  have "low_edges ?p \<noteq> None" "low_n ?p = 0" by (simp_all add: model_defs)
  with SortEdges_assertion
    [where p = ?p and cs = "[Node_from_edge Edge_default 0, Node_default]" and ds = None]
  show ?thesis by simp
qed

subsection \<open>Starting a score update\<close>

text \<open>
  Claim C1: \<^verbatim>\<open>TryStartScoreUpdate\<close> returns true and increments \<^verbatim>\<open>n_in_flight\<close> by
  exactly 1 (in 32 bit arithmetic) if and only if the node is not in the state
  \<open>n = 0\<close> and \<open>n_in_flight = 1\<close>; when it returns false the node is unchanged.
\<close>

theorem TryStartScoreUpdate_iff:
  "fst (Node_TryStartScoreUpdate nd) = (\<not> (node_n nd = 0 \<and> node_n_in_flight nd = 1)) \<and>
   snd (Node_TryStartScoreUpdate nd) =
     (if fst (Node_TryStartScoreUpdate nd)
      then nd\<lparr>node_n_in_flight := node_n_in_flight nd + 1\<rparr> else nd) \<and>
   node_n (snd (Node_TryStartScoreUpdate nd)) = node_n nd"
  by (simp add: Node_TryStartScoreUpdate_def)

text \<open>
  Two attempts on a freshly realized node, one after the other: the first succeeds, the
  second finds \<open>n = 0\<close> and \<open>n_in_flight = 1\<close> and fails.
\<close>

theorem TryStartScoreUpdate_iff_witness:
  "fst (Node_TryStartScoreUpdate (Node_from_edge Edge_default 0)) \<and>
   node_n_in_flight (snd (Node_TryStartScoreUpdate (Node_from_edge Edge_default 0))) = 1 \<and>
   \<not> fst (Node_TryStartScoreUpdate (snd (Node_TryStartScoreUpdate (Node_from_edge Edge_default 0)))) \<and>
   snd (Node_TryStartScoreUpdate (snd (Node_TryStartScoreUpdate (Node_from_edge Edge_default 0))))
     = snd (Node_TryStartScoreUpdate (Node_from_edge Edge_default 0))"
proof -
  let ?a = "Node_from_edge Edge_default 0"
  let ?b = "snd (Node_TryStartScoreUpdate ?a)"
  have a: "node_n ?a = 0" "node_n_in_flight ?a = 0"
    by (simp_all add: Node_from_edge_def Node_default_def)
  from TryStartScoreUpdate_iff [of ?a] a
  have b: "fst (Node_TryStartScoreUpdate ?a)" "node_n_in_flight ?b = 1" "node_n ?b = 0"
    by simp_all
  from TryStartScoreUpdate_iff [of ?b] b
  have "\<not> fst (Node_TryStartScoreUpdate ?b)" "snd (Node_TryStartScoreUpdate ?b) = ?b"
    by simp_all
  with b show ?thesis by simp
qed

subsection \<open>Finalizing a score update\<close>

lemma running_mean_weighted:
  assumes "1 \<le> k"
  shows "(real (unat n) + real_of_int k) * running_mean old n v k =
         real (unat n) * old + real_of_int k * v"
proof -
  have pos: "real (unat n) + real_of_int k \<noteq> 0" using assms
    by (smt (verit) of_int_0_less_iff of_nat_0_le_iff)
  show ?thesis unfolding running_mean_def using pos by (simp add: field_simps)
qed

lemma word_add_int_no_overflow:
  assumes "0 \<le> k" "int (unat (n :: 32 word)) + k < 2 ^ 32"
  shows "int (unat (n + word_of_int k)) = int (unat n) + k"
proof -
  define m where "m = nat k"
  have k: "k = int m" using assms(1) by (simp add: m_def)
  have lt: "unat n + m < 2 ^ 32" using assms(2) unfolding k
    by (metis of_nat_add of_nat_less_numeral_power_cancel_iff)
  then have "m < 2 ^ 32" by simp
  then have "unat (of_nat m :: 32 word) = m" by (simp add: unat_of_nat)
  then have "unat (n + of_nat m) = unat n + m"
    using lt by (simp add: unat_word_ariths)
  then show ?thesis unfolding k by simp
qed

lemma S1_position:
  "map_option low_n scenario_S1 = Some 1 \<and>
   map_option low_wl scenario_S1 = Some (2 / 10)"
  by (simp add: scenario_S1_def model_defs running_mean_def)

lemma S1_visited_position:
  "map_option low_n scenario_S1_visited = Some 2 \<and>
   map_option low_wl scenario_S1_visited = Some (2 / 10)"
  by (simp add: scenario_S1_visited_def model_defs running_mean_def)

lemma S1_children:
  "(case scenario_S1 of
      None \<Rightarrow> False
    | Some p \<Rightarrow>
        LowNode_GetChildAt p 1 = Some (StaticSlot 1) \<and>
        map_option node_wl (LowNode_node_at p (StaticSlot 1)) = Some (2 / 10) \<and>
        map_option node_n (LowNode_node_at p (StaticSlot 1)) = Some 1 \<and>
        map_option node_n_in_flight (LowNode_node_at p (StaticSlot 1)) = Some 0 \<and>
        LowNode_GetChildAt p 0 = None \<and> LowNode_GetChildAt p 2 = None)"
  by (simp add: scenario_S1_def model_defs running_mean_def)

text \<open>
  Claim C2 (as stated): after realizing child 1 of a fresh position and finalizing one
  visit with \<open>v = 0.2\<close>, the position has \<open>n = 2\<close>. A fresh position has \<open>n = 0\<close>, and
  one finalized visit makes it 1.
\<close>

theorem FinalizeScoreUpdate_S1_counterexample:
  "map_option low_n scenario_S1 \<noteq> Some 2"
  by (simp add: scenario_S1_def model_defs)

text \<open>
  Claim C2 (amended): for \<open>k \<ge> 1\<close>, \<^verbatim>\<open>FinalizeScoreUpdate(v, d, m, k)\<close> on a node or
  on a position gives \<open>wl' = wl + k (v - wl) / (n + k)\<close>, and the same for \<open>d\<close> and
  \<open>m\<close>, so that \<open>(n + k) wl' = n wl + k v\<close>, and \<open>n' = n + k\<close> in 32 bit arithmetic
  (without wrap-around while \<open>n + k < 2^32\<close>). A node also gets
  \<open>n_in_flight' = n_in_flight - k\<close>; a position has no such counter. In scenario S1
  the position ends with \<open>n = 1\<close> and \<open>wl = 0.2\<close>; it ends with \<open>n = 2\<close> and
  \<open>wl = 0.2\<close> when it had already received its own first visit with \<open>v = 0.2\<close>.
\<close>

theorem FinalizeScoreUpdate_merges:
  assumes "1 \<le> k"
  shows "node_wl (Node_FinalizeScoreUpdate nd v d m k) =
           node_wl nd + real_of_int k * (v - node_wl nd) / (real (unat (node_n nd)) + real_of_int k) \<and>
         node_d (Node_FinalizeScoreUpdate nd v d m k) =
           node_d nd + real_of_int k * (d - node_d nd) / (real (unat (node_n nd)) + real_of_int k) \<and>
         node_m (Node_FinalizeScoreUpdate nd v d m k) =
           node_m nd + real_of_int k * (m - node_m nd) / (real (unat (node_n nd)) + real_of_int k) \<and>
         (real (unat (node_n nd)) + real_of_int k) * node_wl (Node_FinalizeScoreUpdate nd v d m k) =
           real (unat (node_n nd)) * node_wl nd + real_of_int k * v \<and>
         node_n (Node_FinalizeScoreUpdate nd v d m k) = node_n nd + word_of_int k \<and>
         node_n_in_flight (Node_FinalizeScoreUpdate nd v d m k) =
           node_n_in_flight nd - word_of_int k \<and>
         low_wl (LowNode_FinalizeScoreUpdate p v d m k) =
           low_wl p + real_of_int k * (v - low_wl p) / (real (unat (low_n p)) + real_of_int k) \<and>
         low_d (LowNode_FinalizeScoreUpdate p v d m k) =
           low_d p + real_of_int k * (d - low_d p) / (real (unat (low_n p)) + real_of_int k) \<and>
         low_m (LowNode_FinalizeScoreUpdate p v d m k) =
           low_m p + real_of_int k * (m - low_m p) / (real (unat (low_n p)) + real_of_int k) \<and>
         (real (unat (low_n p)) + real_of_int k) * low_wl (LowNode_FinalizeScoreUpdate p v d m k) =
           real (unat (low_n p)) * low_wl p + real_of_int k * v \<and>
         low_n (LowNode_FinalizeScoreUpdate p v d m k) = low_n p + word_of_int k \<and>
         (int (unat (low_n p)) + k < 2 ^ 32 \<longrightarrow>
            int (unat (low_n (LowNode_FinalizeScoreUpdate p v d m k))) = int (unat (low_n p)) + k) \<and>
         map_option low_n scenario_S1 = Some 1 \<and>
         map_option low_wl scenario_S1 = Some (2 / 10) \<and>
         map_option low_n scenario_S1_visited = Some 2 \<and>
         map_option low_wl scenario_S1_visited = Some (2 / 10)"
proof -
  have k0: "0 \<le> k" using assms by simp
  have wn: "(real (unat (node_n nd)) + real_of_int k) * node_wl (Node_FinalizeScoreUpdate nd v d m k) =
           real (unat (node_n nd)) * node_wl nd + real_of_int k * v"
    using running_mean_weighted [OF assms] by (simp add: Node_FinalizeScoreUpdate_def)
  have wl: "(real (unat (low_n p)) + real_of_int k) * low_wl (LowNode_FinalizeScoreUpdate p v d m k) =
           real (unat (low_n p)) * low_wl p + real_of_int k * v"
    using running_mean_weighted [OF assms] by (simp add: LowNode_FinalizeScoreUpdate_def)
  have nn: "node_wl (Node_FinalizeScoreUpdate nd v d m k) =
           node_wl nd + real_of_int k * (v - node_wl nd) / (real (unat (node_n nd)) + real_of_int k) \<and>
         node_d (Node_FinalizeScoreUpdate nd v d m k) =
           node_d nd + real_of_int k * (d - node_d nd) / (real (unat (node_n nd)) + real_of_int k) \<and>
         node_m (Node_FinalizeScoreUpdate nd v d m k) =
           node_m nd + real_of_int k * (m - node_m nd) / (real (unat (node_n nd)) + real_of_int k) \<and>
         node_n (Node_FinalizeScoreUpdate nd v d m k) = node_n nd + word_of_int k \<and>
         node_n_in_flight (Node_FinalizeScoreUpdate nd v d m k) =
           node_n_in_flight nd - word_of_int k"
    by (simp add: Node_FinalizeScoreUpdate_def running_mean_def)
  have ll: "low_wl (LowNode_FinalizeScoreUpdate p v d m k) =
           low_wl p + real_of_int k * (v - low_wl p) / (real (unat (low_n p)) + real_of_int k) \<and>
         low_d (LowNode_FinalizeScoreUpdate p v d m k) =
           low_d p + real_of_int k * (d - low_d p) / (real (unat (low_n p)) + real_of_int k) \<and>
         low_m (LowNode_FinalizeScoreUpdate p v d m k) =
           low_m p + real_of_int k * (m - low_m p) / (real (unat (low_n p)) + real_of_int k) \<and>
         low_n (LowNode_FinalizeScoreUpdate p v d m k) = low_n p + word_of_int k"
    by (simp add: LowNode_FinalizeScoreUpdate_def running_mean_def)
  have ov: "int (unat (low_n p)) + k < 2 ^ 32 \<longrightarrow>
            int (unat (low_n (LowNode_FinalizeScoreUpdate p v d m k))) = int (unat (low_n p)) + k"
    using word_add_int_no_overflow [OF k0, of "low_n p"]
    by (simp add: LowNode_FinalizeScoreUpdate_def)
  from wn wl nn ll ov S1_position S1_visited_position show ?thesis by blast
qed

theorem FinalizeScoreUpdate_merges_witness:
  "(1 :: int) \<le> 1 \<and>
   node_wl (Node_FinalizeScoreUpdate (Node_default\<lparr>node_n := 1, node_n_in_flight := 1\<rparr>) (1 / 2) 0 10 1) = 1 / 4 \<and>
   node_n (Node_FinalizeScoreUpdate (Node_default\<lparr>node_n := 1, node_n_in_flight := 1\<rparr>) (1 / 2) 0 10 1) = 2 \<and>
   node_n_in_flight (Node_FinalizeScoreUpdate (Node_default\<lparr>node_n := 1, node_n_in_flight := 1\<rparr>) (1 / 2) 0 10 1) = 0"
proof -
  let ?nd = "Node_default\<lparr>node_n := 1, node_n_in_flight := 1\<rparr>"
  have h: "(1 :: int) \<le> 1" by simp
  have f: "node_wl ?nd = 0" "node_n ?nd = 1" "node_n_in_flight ?nd = 1"
    by (simp_all add: Node_default_def)
  from FinalizeScoreUpdate_merges [OF h, of ?nd "1 / 2" 0 10 LowNode_default] f
  show ?thesis by simp
qed

subsection \<open>Realizing a child\<close>

lemma node_at_store_same:
  "LowNode_node_at p q = Some nd0 \<Longrightarrow> LowNode_node_at (LowNode_store_at p q nd) q = Some nd"
  by (cases q) (auto split: option.splits if_splits)

lemma node_at_store_other:
  "q' \<noteq> q \<Longrightarrow> LowNode_node_at (LowNode_store_at p q nd) q' = LowNode_node_at p q'"
  by (cases q; cases q') (auto split: option.splits)

lemma wf_iff:
  "LowNode_wf p \<longleftrightarrow>
     length (edges_of p) = unat (low_num_edges p) \<and>
     length (low_static_children p) = 2 \<and>
     (low_dynamic_children p = None \<or> length (spill_of p) = unat (low_num_edges p) - 2) \<and>
     (\<forall>j < 2. slot_ok (edges_of p) j (low_static_children p ! j)) \<and>
     (\<forall>j < length (spill_of p). slot_ok (edges_of p) (2 + j) (spill_of p ! j))"
  by (auto simp: LowNode_wf_def kStaticChildrenArraySize_def list_all_iff)

lemma wf_node_at:
  assumes "LowNode_wf p" "LowNode_node_at p (slot_of_index i) = Some nd"
  shows "slot_ok (edges_of p) (unat i) nd"
proof (cases "unat i < 2")
  case True
  with assms show ?thesis
    by (auto simp: wf_iff slot_of_index_def kStaticChildrenArraySize_def)
next
  case False
  with assms(2) obtain arr where arr: "low_dynamic_children p = Some arr"
    and lt: "unat i - 2 < length arr" and nd: "nd = arr ! (unat i - 2)"
    by (auto simp: slot_of_index_def kStaticChildrenArraySize_def split: option.splits if_splits)
  from assms(1) arr lt have "slot_ok (edges_of p) (2 + (unat i - 2)) (arr ! (unat i - 2))"
    by (simp add: wf_iff spill_of_def)
  moreover have "2 + (unat i - 2) = unat i" using False by simp
  ultimately show ?thesis using nd by metis
qed

lemma wf_Allocate: "LowNode_wf p \<Longrightarrow> LowNode_wf (LowNode_Allocate p)"
  by (auto simp: wf_iff LowNode_Allocate_def kStaticChildrenArraySize_def edges_of_def spill_of_def
      slot_ok_def Node_default_def split: option.splits)

lemma Allocate_idem: "LowNode_Allocate (LowNode_Allocate p) = LowNode_Allocate p"
  by (auto simp: LowNode_Allocate_def split: option.splits)

lemma Allocate_edges: "low_edges (LowNode_Allocate p) = low_edges p"
  "low_num_edges (LowNode_Allocate p) = low_num_edges p"
  by (auto simp: LowNode_Allocate_def split: option.splits)

lemma wf_slot_exists:
  assumes "LowNode_wf p" "unat i < unat (low_num_edges p)"
  shows "\<exists>nd. LowNode_node_at (if unat i < kStaticChildrenArraySize then p else LowNode_Allocate p)
           (slot_of_index i) = Some nd"
proof (cases "unat i < 2")
  case True
  with assms show ?thesis
    by (auto simp: wf_iff slot_of_index_def kStaticChildrenArraySize_def)
next
  case False
  have "LowNode_wf (LowNode_Allocate p)" using assms(1) by (rule wf_Allocate)
  moreover have "low_dynamic_children (LowNode_Allocate p) \<noteq> None"
    by (auto simp: LowNode_Allocate_def split: option.splits)
  ultimately show ?thesis using False assms(2)
    by (auto simp: wf_iff slot_of_index_def kStaticChildrenArraySize_def spill_of_def Allocate_edges)
qed


lemma store_fields:
  "low_edges (LowNode_store_at p q nd) = low_edges p"
  "low_num_edges (LowNode_store_at p q nd) = low_num_edges p"
  "low_n (LowNode_store_at p q nd) = low_n p"
  by (cases q; simp)+

lemma store_dynamic_None:
  "(low_dynamic_children (LowNode_store_at p q nd) = None) = (low_dynamic_children p = None)"
  by (cases q) auto

lemma Allocate_noop: "low_dynamic_children p \<noteq> None \<Longrightarrow> LowNode_Allocate p = p"
  by (auto simp: LowNode_Allocate_def split: option.splits)

lemma slot_dynamic:
  "\<not> unat i < kStaticChildrenArraySize \<Longrightarrow> LowNode_node_at p (slot_of_index i) = Some nd \<Longrightarrow>
   low_dynamic_children p \<noteq> None"
  by (auto simp: slot_of_index_def split: option.splits)

lemma valid_index_word:
  assumes "unat (i :: 16 word) < unat (n :: 8 word)"
  shows "i \<noteq> kMagicIndexConstructed" and "i < kMagicIndexAssigned" and "of_nat (unat i) = i"
proof -
  have "unat n < 2 ^ LENGTH(8)" by (rule unsigned_less)
  then have "unat n < 256" by simp
  with assms have lt: "unat i < 256" by simp
  have c: "unat kMagicIndexConstructed = 65535" "unat kMagicIndexAssigned = 32767"
    by (simp_all add: kMagicIndexConstructed_def kMagicIndexAssigned_def)
  show "i \<noteq> kMagicIndexConstructed" using lt c by auto
  show "i < kMagicIndexAssigned" using lt c by (simp add: word_less_nat_alt)
  show "of_nat (unat i) = i" by simp
qed


lemma wf_store:
  assumes "LowNode_wf p" "LowNode_node_at p (slot_of_index i) = Some nd0"
    and "slot_ok (edges_of p) (unat i) nd"
  shows "LowNode_wf (LowNode_store_at p (slot_of_index i) nd)"
proof (cases "unat i < 2")
  case True
  then have q: "slot_of_index i = StaticSlot (unat i)"
    by (simp add: slot_of_index_def kStaticChildrenArraySize_def)
  show ?thesis using assms True unfolding q wf_iff
    by (auto simp: edges_of_def spill_of_def nth_list_update)
next
  case False
  then have q: "slot_of_index i = DynamicSlot (unat i - 2)"
    by (simp add: slot_of_index_def kStaticChildrenArraySize_def)
  have "2 + (unat i - 2) = unat i" using False by simp
  then have ok: "slot_ok (edges_of p) (2 + (unat i - 2)) nd" using assms(3) by metis
  from assms(2) obtain arr where arr: "low_dynamic_children p = Some arr"
    and lt: "unat i - 2 < length arr"
    unfolding q by (auto split: option.splits if_splits)
  have slots: "\<forall>j < length arr. slot_ok (edges_of p) (2 + j) (arr ! j)"
    using assms(1) arr by (simp add: wf_iff spill_of_def)
  have "\<forall>j < length arr. slot_ok (edges_of p) (2 + j) (arr[unat i - 2 := nd] ! j)"
  proof (intro allI impI)
    fix j assume j: "j < length arr"
    show "slot_ok (edges_of p) (2 + j) (arr[unat i - 2 := nd] ! j)"
    proof (cases "j = unat i - 2")
      case True
      then show ?thesis using ok lt by simp
    next
      case False
      then show ?thesis using slots j by simp
    qed
  qed
  then show ?thesis using assms(1) arr unfolding q wf_iff
    by (simp add: edges_of_def spill_of_def)
qed

lemma sum_list_update_word:
  fixes g :: "'a \<Rightarrow> 32 word"
  assumes "j < length xs"
  shows "sum_list (map g (xs[j := y])) + g (xs ! j) = sum_list (map g xs) + g y"
  using assms
proof (induction xs arbitrary: j)
  case Nil
  then show ?case by simp
next
  case (Cons x xs)
  show ?case
  proof (cases j)
    case 0
    then show ?thesis by (simp add: algebra_simps)
  next
    case (Suc j')
    with Cons.prems have "j' < length xs" by simp
    from Cons.IH [OF this] show ?thesis using Suc by (simp add: algebra_simps)
  qed
qed

lemma all_children_store:
  assumes "LowNode_node_at p q = Some nd0" "length (low_static_children p) = 2"
  shows "\<exists>j < length (all_children p). all_children p ! j = nd0 \<and>
           all_children (LowNode_store_at p q nd) = (all_children p)[j := nd]"
proof (cases q)
  case (StaticSlot j)
  with assms show ?thesis
    by (auto simp: all_children_def nth_append list_update_append1 split: if_splits intro!: exI [of _ j])
next
  case (DynamicSlot j)
  with assms obtain arr where arr: "low_dynamic_children p = Some arr" "j < length arr" "arr ! j = nd0"
    by (auto split: option.splits if_splits)
  show ?thesis using arr assms(2) DynamicSlot
    by (auto simp: all_children_def nth_append list_update_append intro!: exI [of _ "2 + j"])
qed

lemma children_visits_store:
  assumes "LowNode_node_at p q = Some nd0" "length (low_static_children p) = 2"
  shows "children_visits (LowNode_store_at p q nd) + realized_visits nd0 =
         children_visits p + realized_visits nd"
proof -
  from all_children_store [OF assms, of nd] obtain j where j: "j < length (all_children p)"
    "all_children p ! j = nd0" "all_children (LowNode_store_at p q nd) = (all_children p)[j := nd]"
    by blast
  from sum_list_update_word [OF j(1), of realized_visits nd] j(2,3)
  show ?thesis by (simp add: children_visits_def)
qed

lemma sum_list_replicate_zero: "sum_list (replicate k (0 :: 32 word)) = 0"
  by (induction k) simp_all

lemma children_visits_Allocate:
  "children_visits (LowNode_Allocate p) = children_visits p"
  by (simp add: children_visits_def all_children_def LowNode_Allocate_def Node_Realized_def
      realized_visits_def sum_list_replicate_zero
      Node_default_def kMagicIndexConstructed_def kMagicIndexAssigned_def split: option.splits)

lemma children_visits_Finalize:
  "children_visits (LowNode_FinalizeScoreUpdate p v d m k) = children_visits p"
  by (simp add: children_visits_def all_children_def LowNode_FinalizeScoreUpdate_def)

lemma Allocate_n: "low_n (LowNode_Allocate p) = low_n p"
  by (auto simp: LowNode_Allocate_def split: option.splits)

lemma quiescent_Finalize:
  "children_quiescent (LowNode_FinalizeScoreUpdate p v d m k) = children_quiescent p"
  by (simp add: children_quiescent_def all_children_def LowNode_FinalizeScoreUpdate_def)

lemma quiescent_Allocate:
  "children_quiescent (LowNode_Allocate p) = children_quiescent p"
  by (auto simp: children_quiescent_def all_children_def LowNode_Allocate_def Node_default_def
      list_all_iff split: option.splits)

lemma quiescent_store:
  assumes "LowNode_node_at p q = Some nd0" "length (low_static_children p) = 2"
    "children_quiescent p" "node_n_in_flight nd = 0"
  shows "children_quiescent (LowNode_store_at p q nd)"
proof -
  from all_children_store [OF assms(1,2), of nd] obtain j where
    "all_children (LowNode_store_at p q nd) = (all_children p)[j := nd]" by blast
  then show ?thesis using assms(3,4)
    by (auto simp: children_quiescent_def list_all_iff dest: set_update_subset_insert [THEN subsetD])
qed

lemma quiescent_node_at:
  assumes "children_quiescent p" "LowNode_node_at p q = Some nd" "length (low_static_children p) = 2"
  shows "node_n_in_flight nd = 0"
proof -
  from all_children_store [OF assms(2,3), of nd] obtain j where
    "j < length (all_children p)" "all_children p ! j = nd" by blast
  then have "nd \<in> set (all_children p)" by (metis nth_mem)
  with assms(1) show ?thesis by (simp add: children_quiescent_def list_all_iff)
qed

lemma InsertChildAt_wf:
  assumes "LowNode_wf p" and "unat i < unat (low_num_edges p)"
  shows "\<exists>q p1 nd.
           LowNode_InsertChildAt p i = Some (q, p1) \<and>
           LowNode_InsertChildAt p1 i = Some (q, p1) \<and>
           q = slot_of_index i \<and>
           LowNode_node_at p1 q = Some nd \<and>
           Node_Index nd = i \<and>
           node_edge nd = edges_of p ! unat i \<and>
           LowNode_GetChildAt p1 i = Some q \<and>
           LowNode_GetChildAt p i = (if LowNode_child_realized p i then Some q else None) \<and>
           LowNode_wf p1 \<and> Node_Realized nd \<and>
           children_visits p1 = children_visits p \<and> low_n p1 = low_n p \<and>
           low_num_edges p1 = low_num_edges p \<and>
           (children_quiescent p \<longrightarrow> children_quiescent p1)"
proof -
  let ?q = "slot_of_index i"
  define p0 where "p0 = (if unat i < kStaticChildrenArraySize then p else LowNode_Allocate p)"
  from assms have len: "unat i < length (edges_of p)" by (simp add: wf_iff)
  then obtain es where es: "low_edges p = Some es" "edges_of p = es"
    by (cases "low_edges p") (auto simp: edges_of_def)
  have wf0: "LowNode_wf p0" using assms(1) wf_Allocate by (simp add: p0_def)
  have e0: "low_edges p0 = Some es" "low_num_edges p0 = low_num_edges p" "edges_of p0 = es"
    using es by (simp_all add: p0_def Allocate_edges edges_of_def)
  from wf_slot_exists [OF assms] obtain nd0 where nd0: "LowNode_node_at p0 ?q = Some nd0"
    unfolding p0_def by blast
  from wf_node_at [OF wf0 nd0] have ok0: "slot_ok es (unat i) nd0" by (simp add: e0)
  note iw = valid_index_word [OF assms(2)]
  have alloc0: "(if unat i < kStaticChildrenArraySize then p0 else LowNode_Allocate p0) = p0"
    by (simp add: p0_def Allocate_idem)
  have cv0: "children_visits p0 = children_visits p" "low_n p0 = low_n p"
    by (simp_all add: p0_def children_visits_Allocate Allocate_n)
  have len0: "length (low_static_children p0) = 2" using wf0 by (simp add: wf_iff)
  have q0: "children_quiescent p \<longrightarrow> children_quiescent p0"
    by (simp add: p0_def quiescent_Allocate)
  have get_before: "LowNode_GetChildAt p i = (if LowNode_child_realized p i then Some ?q else None)"
    using assms(2)
    by (simp add: LowNode_GetChildAt_def LowNode_FindPlaceOf_def LowNode_child_realized_def
        split: option.splits)
  show ?thesis
  proof (cases "node_index nd0 = kMagicIndexConstructed")
    case True
    define nd where "nd = nd0\<lparr>node_edge := es ! unat i, node_index := i\<rparr>"
    define p1 where "p1 = LowNode_store_at p0 ?q nd"
    have first: "LowNode_InsertChildAt p i = Some (?q, p1)"
      using es assms(2) len nd0 True
      by (simp add: LowNode_InsertChildAt_def LowNode_FindPlaceOf_def Let_def p0_def [symmetric]
          p1_def nd_def)
    have at1: "LowNode_node_at p1 ?q = Some nd" unfolding p1_def using nd0 by (rule node_at_store_same)
    have e1: "low_edges p1 = Some es" "low_num_edges p1 = low_num_edges p"
      using e0 by (simp_all add: p1_def store_fields)
    have alloc1: "(if unat i < kStaticChildrenArraySize then p1 else LowNode_Allocate p1) = p1"
    proof (cases "unat i < kStaticChildrenArraySize")
      case True
      then show ?thesis by simp
    next
      case False
      from slot_dynamic [OF False at1] show ?thesis by (simp add: Allocate_noop)
    qed
    have real1: "Node_Realized nd" "node_index nd \<noteq> kMagicIndexConstructed"
      "node_index nd = i" "node_edge nd = es ! unat i"
      using iw by (simp_all add: Node_Realized_def nd_def)
    have second: "LowNode_InsertChildAt p1 i = Some (?q, p1)"
      unfolding LowNode_InsertChildAt_def Let_def e1 alloc1
      using assms(2) len es at1 real1 by (simp add: LowNode_FindPlaceOf_def)
    have get1: "LowNode_GetChildAt p1 i = Some ?q"
      using at1 real1 assms(2) e1 by (simp add: LowNode_GetChildAt_def LowNode_FindPlaceOf_def)
    have "slot_ok (edges_of p0) (unat i) nd"
      using real1 len es iw by (simp add: slot_ok_def e0)
    from wf_store [OF wf0 nd0 this] have wf1: "LowNode_wf p1" by (simp add: p1_def)
    have "node_n nd0 = 0" using ok0 True iw by (auto simp: slot_ok_def)
    then have rv: "realized_visits nd0 = 0" "realized_visits nd = 0"
      by (simp_all add: realized_visits_def nd_def)
    from children_visits_store [OF nd0 len0, of nd] rv cv0
    have cv1: "children_visits p1 = children_visits p" "low_n p1 = low_n p"
      by (simp_all add: p1_def store_fields)
    have qq: "children_quiescent p \<longrightarrow> children_quiescent p1"
    proof
      assume "children_quiescent p"
      with q0 have c0: "children_quiescent p0" by simp
      from quiescent_node_at [OF c0 nd0 len0] have "node_n_in_flight nd = 0"
        by (simp add: nd_def)
      from quiescent_store [OF nd0 len0 c0 this] show "children_quiescent p1"
        by (simp add: p1_def)
    qed
    from first second at1 get1 get_before wf1 es real1 cv1 e1 qq show ?thesis
      by (simp add: Node_Index_def)
  next
    case False
    with ok0 have idx: "node_index nd0 = i" and edge: "node_edge nd0 = es ! unat i"
      using iw by (simp_all add: slot_ok_def)
    have real0: "Node_Realized nd0" using idx iw by (simp add: Node_Realized_def)
    have first: "LowNode_InsertChildAt p i = Some (?q, p0)"
      using es assms(2) len nd0 False real0
      by (simp add: LowNode_InsertChildAt_def LowNode_FindPlaceOf_def Let_def p0_def [symmetric])
    have second: "LowNode_InsertChildAt p0 i = Some (?q, p0)"
      unfolding LowNode_InsertChildAt_def Let_def e0 alloc0
      using assms(2) len es nd0 False real0 by (simp add: LowNode_FindPlaceOf_def)
    have get1: "LowNode_GetChildAt p0 i = Some ?q"
      using nd0 real0 assms(2) e0 by (simp add: LowNode_GetChildAt_def LowNode_FindPlaceOf_def)
    from first second nd0 get1 get_before wf0 es idx edge real0 cv0 e0 q0 show ?thesis
      by (simp add: Node_Index_def)
  qed
qed


text \<open>
  The constructors establish the invariant (for at most 255 moves, the range of
  \<^verbatim>\<open>num_edges_\<close>); the constructor that also creates the first child does so when that
  child is the one of index 0. It always gives the child its index and its edge, but it
  places the child in the first inline slot whatever the index is.
\<close>

lemma wf_from_moves:
  assumes "length moves < 256"
  shows "LowNode_wf (LowNode_from_moves moves)"
proof -
  have "unat (of_nat (length moves) :: 8 word) = length moves"
    using assms by (simp add: unat_of_nat)
  then show ?thesis
    by (simp add: wf_iff LowNode_from_moves_def LowNode_default_def edges_of_def spill_of_def
        Edge_FromMovelist_def slot_ok_def Node_default_def kStaticChildrenArraySize_def
        replicate_static less_2_cases_iff)
qed


lemma from_moves_index_child:
  assumes "LowNode_from_moves_index moves j = Some p"
  shows "Node_Index (low_static_children p ! 0) = j \<and>
         node_edge (low_static_children p ! 0) = Edge_FromMovelist moves ! unat j \<and>
         unat j < length moves"
  using assms
  by (auto simp: LowNode_from_moves_index_def LowNode_from_moves_def LowNode_default_def
      Node_Index_def Node_from_edge_def replicate_static kStaticChildrenArraySize_def
      split: if_splits)




subsection \<open>Visits of a position and of its children\<close>

lemma wf_Finalize: "LowNode_wf (LowNode_FinalizeScoreUpdate p v d m k) = LowNode_wf p"
  by (simp add: LowNode_wf_def LowNode_FinalizeScoreUpdate_def edges_of_def spill_of_def)

lemma Node_visit_quiescent:
  assumes "node_n_in_flight nd = 0"
  shows "\<exists>nd'. Node_visit nd v d m k = Some nd' \<and> node_index nd' = node_index nd \<and>
           node_edge nd' = node_edge nd \<and> node_n nd' = node_n nd + word_of_int k \<and>
           node_n_in_flight nd' = 0"
  using assms
  by (simp add: Node_visit_def Node_TryStartScoreUpdate_def Node_IncrementNInFlight_def
      Node_FinalizeScoreUpdate_def)

lemma descend_aggregate:
  assumes "LowNode_wf p" "children_quiescent p" "aggregate_ok p"
    and "unat i < unat (low_num_edges p)"
  shows "\<exists>p'. LowNode_descend p i v d m k = Some p' \<and> LowNode_wf p' \<and>
           children_quiescent p' \<and> aggregate_ok p' \<and> low_num_edges p' = low_num_edges p"
proof -
  from InsertChildAt_wf [OF assms(1,4)] obtain q p1 nd where
    ins: "LowNode_InsertChildAt p i = Some (q, p1)"
    and q: "q = slot_of_index i" and at: "LowNode_node_at p1 q = Some nd"
    and wf1: "LowNode_wf p1" and real: "Node_Realized nd"
    and cv1: "children_visits p1 = children_visits p" and n1: "low_n p1 = low_n p"
    and ne1: "low_num_edges p1 = low_num_edges p"
    and qq: "children_quiescent p \<longrightarrow> children_quiescent p1"
    by blast
  have len1: "length (low_static_children p1) = 2" using wf1 by (simp add: wf_iff)
  from qq assms(2) have q1: "children_quiescent p1" by simp
  from quiescent_node_at [OF q1 at len1] have nif: "node_n_in_flight nd = 0" .
  from Node_visit_quiescent [OF nif, of v d m k] obtain nd' where
    vis: "Node_visit nd v d m k = Some nd'"
    and keep: "node_index nd' = node_index nd" "node_edge nd' = node_edge nd"
      "node_n nd' = node_n nd + word_of_int k" "node_n_in_flight nd' = 0"
    by blast
  define p2 where "p2 = LowNode_store_at p1 q nd'"
  define p' where "p' = LowNode_FinalizeScoreUpdate p2 v d m k"
  have res: "LowNode_descend p i v d m k = Some p'"
    using ins at vis by (simp add: LowNode_descend_def p'_def p2_def)
  have real': "Node_Realized nd'" using real keep by (simp add: Node_Realized_def)
  from wf_node_at [OF wf1 at [unfolded q]] have ok: "slot_ok (edges_of p1) (unat i) nd" .
  have "node_index nd \<noteq> kMagicIndexConstructed"
    using real by (auto simp: Node_Realized_def kMagicIndexConstructed_def kMagicIndexAssigned_def)
  with ok keep have ok': "slot_ok (edges_of p1) (unat i) nd'" by (simp add: slot_ok_def)
  from wf_store [OF wf1 at [unfolded q] ok'] have wf2: "LowNode_wf p2" by (simp add: p2_def q)
  from quiescent_store [OF at len1 q1 keep(4)] have q2: "children_quiescent p2"
    by (simp add: p2_def)
  from children_visits_store [OF at len1, of nd'] real real' keep
  have "children_visits p2 + node_n nd = children_visits p1 + (node_n nd + word_of_int k)"
    by (simp add: realized_visits_def p2_def)
  then have cv2: "children_visits p2 = children_visits p + word_of_int k"
    using cv1 by simp
  have n2: "low_n p2 = low_n p" "low_num_edges p2 = low_num_edges p"
    using n1 ne1 by (simp_all add: p2_def store_fields)
  have "low_n p' = low_n p + word_of_int k" "low_num_edges p' = low_num_edges p"
    using n2 by (simp_all add: p'_def LowNode_FinalizeScoreUpdate_def)
  moreover have "children_visits p' = children_visits p + word_of_int k"
    using cv2 by (simp add: p'_def children_visits_Finalize)
  moreover have "LowNode_wf p'" "children_quiescent p'"
    using wf2 q2 by (simp_all add: p'_def wf_Finalize quiescent_Finalize)
  ultimately show ?thesis using assms(3) res by (simp add: aggregate_ok_def)
qed

lemma run_descents_aggregate:
  assumes "LowNode_wf p" "children_quiescent p" "aggregate_ok p"
    and "list_all (\<lambda>x. unat (descent_index x) < unat (low_num_edges p)) xs"
  shows "\<exists>p'. run_descents xs p = Some p' \<and> LowNode_wf p' \<and> children_quiescent p' \<and>
           aggregate_ok p'"
  using assms
proof (induction xs arbitrary: p)
  case Nil
  then show ?case by simp
next
  case (Cons x xs)
  from Cons.prems(4) have v: "unat (descent_index x) < unat (low_num_edges p)"
    and rest: "list_all (\<lambda>x. unat (descent_index x) < unat (low_num_edges p)) xs"
    by simp_all
  from descend_aggregate [OF Cons.prems(1,2,3) v] obtain p1 where
    d: "LowNode_descend p (descent_index x) (descent_v x) (descent_d x) (descent_m x)
          (descent_multivisit x) = Some p1"
    and w: "LowNode_wf p1" "children_quiescent p1" "aggregate_ok p1"
    and ne: "low_num_edges p1 = low_num_edges p" by blast
  from Cons.IH [OF w] rest ne d show ?case by simp
qed

lemma first_visit_aggregate:
  assumes "length moves < 256"
  shows "LowNode_wf (LowNode_first_visit (LowNode_from_moves moves) v d m) \<and>
         children_quiescent (LowNode_first_visit (LowNode_from_moves moves) v d m) \<and>
         aggregate_ok (LowNode_first_visit (LowNode_from_moves moves) v d m) \<and>
         unat (low_num_edges (LowNode_first_visit (LowNode_from_moves moves) v d m)) = length moves"
proof -
  have "unat (of_nat (length moves) :: 8 word) = length moves"
    using assms by (simp add: unat_of_nat)
  moreover have "children_visits (LowNode_from_moves moves) = 0"
    by (simp add: children_visits_def all_children_def realized_visits_def
        LowNode_from_moves_def LowNode_default_def kStaticChildrenArraySize_def
        replicate_static Node_default_def)
  moreover have "children_quiescent (LowNode_from_moves moves)"
    by (simp add: children_quiescent_def all_children_def
        LowNode_from_moves_def LowNode_default_def kStaticChildrenArraySize_def
        replicate_static Node_default_def)
  ultimately show ?thesis using wf_from_moves [OF assms]
    by (simp add: LowNode_first_visit_def wf_Finalize aggregate_ok_def children_visits_Finalize
          quiescent_Finalize)
      (simp add: LowNode_FinalizeScoreUpdate_def LowNode_from_moves_def LowNode_default_def)
qed


text \<open>
  Claim C3 (as stated): in every position reached by finalized descents, \<open>n\<close> is one
  more than the sum of the visits of the realized children, and \<^verbatim>\<open>GetChildrenVisits()\<close>
  equals that sum. A position without legal moves (the game is over there) that was
  visited twice, each visit finalized, has \<open>n = 2\<close> and no children.
\<close>

theorem aggregate_consistency_counterexample:
  "LowNode_GetN (LowNode_FinalizeScoreUpdate (LowNode_first_visit (LowNode_from_moves []) 1 0 0) 1 0 0 1)
     \<noteq> 1 + children_visits
            (LowNode_FinalizeScoreUpdate (LowNode_first_visit (LowNode_from_moves []) 1 0 0) 1 0 0 1) \<and>
   LowNode_GetChildrenVisits
       (LowNode_FinalizeScoreUpdate (LowNode_first_visit (LowNode_from_moves []) 1 0 0) 1 0 0 1)
     \<noteq> children_visits
          (LowNode_FinalizeScoreUpdate (LowNode_first_visit (LowNode_from_moves []) 1 0 0) 1 0 0 1)"
  by (simp add: LowNode_GetN_def LowNode_GetChildrenVisits_def children_visits_def all_children_def
      realized_visits_def model_defs)

text \<open>
  Claim C3 (amended): in every position that received the finalized visit of its own
  evaluation and afterwards only descents through one of its edges, each of which
  finalizes its multivisit on the realized child and on the position, \<open>n\<close> is one more
  than the sum of the visits of the realized children (in 32 bit arithmetic), and
  \<^verbatim>\<open>GetChildrenVisits()\<close> equals that sum. Every such sequence of descents through
  valid edge indices has a result.
\<close>

theorem aggregate_consistency:
  assumes "length moves < 256"
    and "list_all (\<lambda>x. unat (descent_index x) < length moves) xs"
  shows "\<exists>p. run_descents xs (LowNode_first_visit (LowNode_from_moves moves) v d m) = Some p \<and>
             LowNode_GetN p = 1 + children_visits p \<and>
             LowNode_GetChildrenVisits p = children_visits p"
proof -
  let ?p0 = "LowNode_first_visit (LowNode_from_moves moves) v d m"
  from first_visit_aggregate [OF assms(1), of v d m]
  have w: "LowNode_wf ?p0" "children_quiescent ?p0" "aggregate_ok ?p0"
    and ne: "unat (low_num_edges ?p0) = length moves"
    by simp_all
  from assms(2) ne have "list_all (\<lambda>x. unat (descent_index x) < unat (low_num_edges ?p0)) xs"
    by simp
  from run_descents_aggregate [OF w this] obtain p where
    "run_descents xs ?p0 = Some p" "aggregate_ok p" by blast
  then show ?thesis
    by (auto simp: aggregate_ok_def LowNode_GetN_def LowNode_GetChildrenVisits_def)
qed

text \<open>
  The witness: the first visit, one visit through edge 1 and a double visit through
  edge 2 (which lives in the spill) give \<open>n = 4\<close> and three children visits.
\<close>

theorem aggregate_consistency_witness:
  "length [10, 20, 30 :: Move] < 256 \<and>
   list_all (\<lambda>x. unat (descent_index x) < length [10, 20, 30 :: Move])
     [\<lparr>descent_index = 1, descent_v = 2 / 10, descent_d = 0, descent_m = 10, descent_multivisit = 1\<rparr>,
      \<lparr>descent_index = 2, descent_v = 1 / 2, descent_d = 0, descent_m = 8, descent_multivisit = 2\<rparr>] \<and>
   (\<exists>p. run_descents
          [\<lparr>descent_index = 1, descent_v = 2 / 10, descent_d = 0, descent_m = 10, descent_multivisit = 1\<rparr>,
           \<lparr>descent_index = 2, descent_v = 1 / 2, descent_d = 0, descent_m = 8, descent_multivisit = 2\<rparr>]
          (LowNode_first_visit (LowNode_from_moves [10, 20, 30]) (3 / 10) 0 12) = Some p \<and>
        LowNode_GetN p = 4 \<and> children_visits p = 3 \<and> LowNode_GetChildrenVisits p = 3)"
proof -
  let ?xs = "[\<lparr>descent_index = 1, descent_v = 2 / 10, descent_d = 0, descent_m = 10, descent_multivisit = 1\<rparr>,
      \<lparr>descent_index = 2, descent_v = 1 / 2, descent_d = 0, descent_m = 8, descent_multivisit = 2\<rparr>]"
  let ?p0 = "LowNode_first_visit (LowNode_from_moves [10, 20, 30]) (3 / 10) 0 12"
  have h1: "length [10, 20, 30 :: Move] < 256" by simp
  have h2: "list_all (\<lambda>x. unat (descent_index x) < length [10, 20, 30 :: Move]) ?xs" by simp
  from aggregate_consistency [OF h1 h2, of "3 / 10" 0 12] obtain p where
    r: "run_descents ?xs ?p0 = Some p" and a: "LowNode_GetN p = 1 + children_visits p"
    and c: "LowNode_GetChildrenVisits p = children_visits p" by blast
  have "map_option low_n (run_descents ?xs ?p0) = Some 4"
    by (simp add: model_defs)
  with r have "LowNode_GetN p = 4" by (simp add: LowNode_GetN_def)
  with a c have "children_visits p = 3" "LowNode_GetChildrenVisits p = 3" by simp_all
  with r \<open>LowNode_GetN p = 4\<close> h1 h2 show ?thesis by blast
qed

subsection \<open>What the iterator over visited children yields\<close>













end
